theory Spec2Isabelle
  imports Main
begin

section \<open>Python string operations used by the sources\<close>

text \<open>
  A Python \<open>str\<close> is modelled as a \<open>string\<close> (a list of \<open>char\<close>), one \<open>char\<close> per
  code point; the model therefore covers the strings whose code points are below 256.
  \<open>length\<close> is Python's \<open>len\<close> on them. The library functions \<open>str.isspace\<close>,
  \<open>str.strip\<close>, \<open>str.split\<close>, \<open>str.lower\<close> and the substring test \<open>p in s\<close> are
  written out for that range.
\<close>

definition isspace :: "char \<Rightarrow> bool" where
  "isspace c =
     (let n = (of_char c :: nat)
      in (9 \<le> n \<and> n \<le> 13) \<or> (28 \<le> n \<and> n \<le> 32) \<or> n = 133 \<or> n = 160)"

definition strip :: "string \<Rightarrow> string" where
  "strip s = rev (dropWhile isspace (rev (dropWhile isspace s)))"

text \<open>\<open>s.split(sep)\<close> for a one-character separator: \<open>"".split(",") = [""]\<close>.\<close>

fun split_sep :: "char \<Rightarrow> string \<Rightarrow> string list" where
  "split_sep sep [] = [[]]"
| "split_sep sep (c # cs) =
     (if c = sep then [] # split_sep sep cs
      else (case split_sep sep cs of
              [] \<Rightarrow> [[c]]
            | w # ws \<Rightarrow> (c # w) # ws))"

definition lower_char :: "char \<Rightarrow> char" where
  "lower_char c =
     (let n = (of_char c :: nat)
      in if (65 \<le> n \<and> n \<le> 90) \<or> (192 \<le> n \<and> n \<le> 214) \<or> (216 \<le> n \<and> n \<le> 222)
         then char_of (n + 32) else c)"

definition lower :: "string \<Rightarrow> string" where
  "lower s = map lower_char s"

fun startswith :: "string \<Rightarrow> string \<Rightarrow> bool" where
  "startswith s [] = True"
| "startswith [] (p # ps) = False"
| "startswith (c # cs) (p # ps) = (c = p \<and> startswith cs ps)"

text \<open>\<open>str_in p s\<close> is Python's \<open>p in s\<close>: \<open>p\<close> occurs in \<open>s\<close> as a contiguous substring.\<close>

fun str_in :: "string \<Rightarrow> string \<Rightarrow> bool" where
  "str_in p [] = (p = [])"
| "str_in p (c # cs) = (startswith (c # cs) p \<or> str_in p cs)"

section \<open>security_config.py: SecurityConfig\<close>

text \<open>
  The configuration object reads the process environment. \<open>environment\<close>,
  \<open>rate_limit_requests\<close> and \<open>rate_limit_window\<close> are the fields set by \<open>__init__\<close>;
  \<open>API_KEYS\<close> is the value of the environment variable of that name (the empty string
  when it is unset, which is the default \<open>os.getenv\<close> is given).
\<close>

record SecurityConfig =
  environment :: string
  rate_limit_requests :: int
  rate_limit_window :: int
  API_KEYS :: string

definition get_api_keys :: "SecurityConfig \<Rightarrow> string list" where
  "get_api_keys cfg =
     map strip (filter (\<lambda>key. strip key \<noteq> []) (split_sep CHR '','' (API_KEYS cfg)))"

definition validate_api_key :: "SecurityConfig \<Rightarrow> string \<Rightarrow> bool" where
  "validate_api_key cfg api_key =
     (let valid_keys = get_api_keys cfg
      in if valid_keys = [] then True else api_key \<in> set valid_keys)"

section \<open>security_config.py: APIKeyAuth\<close>

text \<open>
  The authenticator reads two things of a request: the value of the header named by
  \<open>api_key_header\<close> (\<open>request.headers.get("X-API-Key")\<close>, \<open>None\<close> when the header is
  absent), and what the parent class \<open>HTTPBearer\<close> returns for the request. The parent is
  framework code; the application builds the authenticator with \<open>auto_error=False\<close>, with
  which the parent returns \<open>None\<close> unless the request carries a well-formed bearer
  authorization header, and the scheme and token otherwise. Its result is the field
  \<open>bearer\<close>. \<open>client_host\<close>, \<open>http_method\<close> and \<open>url_path\<close> are what the middlewares
  of main.py read (\<open>request.client\<close> may be \<open>None\<close>).
\<close>

record HTTPAuthorizationCredentials =
  scheme :: string
  credentials :: string

record Request =
  client_host :: "string option"
  http_method :: string
  url_path :: string
  x_api_key :: "string option"
  bearer :: "HTTPAuthorizationCredentials option"

datatype http_exception = HTTPException (status: int) (detail: string)

text \<open>The second half of \<open>__call__\<close>: the bearer token, and the final \<open>raise\<close>.\<close>

definition check_bearer :: "SecurityConfig \<Rightarrow> Request
    \<Rightarrow> http_exception + HTTPAuthorizationCredentials option" where
  "check_bearer cfg request =
     (case bearer request of
        Some creds \<Rightarrow>
          if validate_api_key cfg (credentials creds) then Inr (Some creds)
          else Inl (HTTPException 401 ''Invalid or missing API key'')
      | None \<Rightarrow> Inl (HTTPException 401 ''Invalid or missing API key''))"

text \<open>
  \<open>APIKeyAuth.__call__\<close>. \<open>Inr None\<close> is the return of \<open>None\<close> (admitted with no
  credential), \<open>Inr (Some c)\<close> the return of a credential, \<open>Inl\<close> the raised exception.
  \<open>if api_key and ...\<close> is false for an absent header and for an empty value.
\<close>

definition APIKeyAuth_call :: "SecurityConfig \<Rightarrow> Request
    \<Rightarrow> http_exception + HTTPAuthorizationCredentials option" where
  "APIKeyAuth_call cfg request =
     (if environment cfg = ''development'' \<and> get_api_keys cfg = [] then Inr None
      else (case x_api_key request of
              Some api_key \<Rightarrow>
                if api_key \<noteq> [] \<and> validate_api_key cfg api_key
                then Inr (Some \<lparr>scheme = ''ApiKey'', credentials = api_key\<rparr>)
                else check_bearer cfg request
            | None \<Rightarrow> check_bearer cfg request))"

section \<open>security_config.py: RateLimiter\<close>

text \<open>
  A \<open>datetime\<close> is an integer number of microseconds; \<open>timedelta(seconds=n)\<close> is
  \<open>n * 1000000\<close> of them. The dictionary \<open>self.requests\<close> maps a client address to the
  list of the times recorded for it. \<open>is_allowed\<close> takes the reading of the clock
  (\<open>datetime.now()\<close>) as an argument and returns its result with the updated dictionary.
  The model covers the windows for which \<open>now - timedelta(...)\<close> is a date the library
  can represent (any window shorter than the time since year 1); beyond them the
  subtraction raises \<open>OverflowError\<close> in the source.
\<close>

type_synonym req_table = "string \<rightharpoonup> int list"

definition timedelta_seconds :: "int \<Rightarrow> int" where
  "timedelta_seconds n = n * 1000000"

definition is_allowed :: "SecurityConfig \<Rightarrow> int \<Rightarrow> string \<Rightarrow> req_table \<Rightarrow> bool \<times> req_table" where
  "is_allowed cfg now client_ip requests =
     (let window_start = now - timedelta_seconds (rate_limit_window cfg);
          cleaned = (case requests client_ip of
                       Some ts \<Rightarrow> filter (\<lambda>req_time. req_time > window_start) ts
                     | None \<Rightarrow> []);
          requests1 = requests(client_ip \<mapsto> cleaned)
      in if int (length cleaned) \<ge> rate_limit_requests cfg
         then (False, requests1)
         else (True, requests1(client_ip \<mapsto> cleaned @ [now])))"

text \<open>
  A sequence of calls, each with the client address and the reading of the clock at the
  call; the result is the log of the calls with their outcomes, and the final dictionary.
\<close>

fun serve :: "SecurityConfig \<Rightarrow> (string \<times> int) list \<Rightarrow> req_table
    \<Rightarrow> (string \<times> int \<times> bool) list \<times> req_table" where
  "serve cfg [] requests = ([], requests)"
| "serve cfg ((client_ip, now) # rest) requests =
     (let (ok, requests1) = is_allowed cfg now client_ip requests;
          (log, requests2) = serve cfg rest requests1
      in ((client_ip, now, ok) # log, requests2))"

text \<open>The list an identity's entry holds; an identity never seen holds none.\<close>

definition window_of :: "req_table \<Rightarrow> string \<Rightarrow> int list" where
  "window_of requests client_ip = (case requests client_ip of None \<Rightarrow> [] | Some ts \<Rightarrow> ts)"

text \<open>The times of the calls of one identity that the log records as admitted.\<close>

definition admitted_times :: "string \<Rightarrow> (string \<times> int \<times> bool) list \<Rightarrow> int list" where
  "admitted_times client_ip log =
     map (\<lambda>(ip, t, ok). t) (filter (\<lambda>(ip, t, ok). ip = client_ip \<and> ok) log)"

text \<open>
  A configuration with the given quota and window (in seconds), for the examples: the
  environment is production and no key is configured.
\<close>

definition config_with_limits :: "int \<Rightarrow> int \<Rightarrow> SecurityConfig" where
  "config_with_limits quota window =
     \<lparr>environment = ''production'', rate_limit_requests = quota, rate_limit_window = window,
        API_KEYS = ''''\<rparr>"

section \<open>security_config.py: security headers and input validation\<close>

text \<open>The dictionary of \<open>get_security_headers\<close>, in the order it is written.\<close>

definition get_security_headers :: "(string \<times> string) list" where
  "get_security_headers =
     [(''X-Content-Type-Options'', ''nosniff''),
      (''X-Frame-Options'', ''DENY''),
      (''X-XSS-Protection'', ''1; mode=block''),
      (''Strict-Transport-Security'', ''max-age=31536000; includeSubDomains''),
      (''Content-Security-Policy'', ''default-src '' @ [CHR 0x27] @ ''self'' @ [CHR 0x27]),
      (''Referrer-Policy'', ''strict-origin-when-cross-origin'')]"

definition malicious_patterns :: "string list" where
  "malicious_patterns =
     [''javascript:'', ''<script'', ''eval('', ''exec('', ''import('', ''__import__'',
      ''subprocess'', ''os.system'', ''shell=True'']"

text \<open>The loop over the patterns: it returns \<open>False\<close> at the first pattern found.\<close>

fun scan_patterns :: "string list \<Rightarrow> string \<Rightarrow> bool" where
  "scan_patterns [] query_lower = True"
| "scan_patterns (pattern # rest) query_lower =
     (if str_in pattern query_lower then False else scan_patterns rest query_lower)"

text \<open>
  \<open>validate_query_input\<close>. The argument is \<open>None\<close> for Python's \<open>None\<close> (a value that
  is not a string); \<open>not query\<close> holds for \<open>None\<close> and for the empty string.
\<close>

definition validate_query_input :: "string option \<Rightarrow> bool" where
  "validate_query_input query =
     (case query of
        None \<Rightarrow> False
      | Some q \<Rightarrow>
          if q = [] then False
          else if length q > 1000 then False
          else scan_patterns malicious_patterns (lower q))"

section \<open>main.py\<close>

datatype value_error = ValueError string

text \<open>
  \<open>QueryRequest.validate_query\<close>: the validator of the field \<open>query\<close>. It raises
  \<open>ValueError\<close> (the framework answers 422) or returns the stripped text, which is the
  value the endpoint receives as \<open>request.query\<close>.
\<close>

definition validate_query :: "string option \<Rightarrow> value_error + string" where
  "validate_query v =
     (case v of
        None \<Rightarrow> Inl (ValueError ''Invalid query input'')
      | Some q \<Rightarrow>
          if \<not> validate_query_input (Some q) then Inl (ValueError ''Invalid query input'')
          else Inr (strip q))"

text \<open>
  JSON bodies. \<open>JNow t\<close> stands for \<open>datetime.now().isoformat()\<close> at the clock reading
  \<open>t\<close>. A response holds the status, the body and the headers that the application's
  own code sets (the framework's content headers are left out).
\<close>

datatype json = JStr string | JNow int | JObj "(string \<times> json) list"

record Response =
  status_code :: int
  content :: json
  headers :: "string \<rightharpoonup> string"

definition JSONResponse :: "int \<Rightarrow> json \<Rightarrow> Response" where
  "JSONResponse code body = \<lparr>status_code = code, content = body, headers = Map.empty\<rparr>"

text \<open>
  The records written to the server's log, one constructor per logging statement of
  main.py. Where the statement prints \<open>hash_sensitive_data(x)\<close> the record holds \<open>x\<close>;
  the elapsed time of \<open>log_requests\<close> is left out.
\<close>

datatype log_record =
    StartRequest string string
  | EndResponse int
  | RateLimitExceeded string
  | ProcessingQuery string
  | QueryProcessed
  | LogError string
  | UnhandledException string

record app_state =
  rate_limiter :: req_table
  server_log :: "log_record list"
  clock :: int

text \<open>
  \<open>query_crew_endpoint\<close>, called with the validated \<open>request.query\<close>. The external
  processor \<open>run_crew_query\<close> is a parameter: \<open>Inr r\<close> is its result, \<open>Inl msg\<close> an
  exception it raises, with \<open>msg\<close> the text \<open>str(e)\<close>. The result is a dictionary with
  string keys, as the route declares (\<open>response_model=Dict[str, Any]\<close>); a result of
  another type, which the framework's response validation refuses, is outside the model.
\<close>

type_synonym json_dict = "(string \<times> json) list"

definition query_crew_endpoint :: "(string \<Rightarrow> string + json_dict) \<Rightarrow> string \<Rightarrow> log_record list
    \<Rightarrow> (http_exception + json_dict) \<times> log_record list" where
  "query_crew_endpoint run_crew_query query lg =
     (let lg1 = lg @ [ProcessingQuery query]
      in case run_crew_query query of
           Inr result \<Rightarrow> (Inr result, lg1 @ [QueryProcessed])
         | Inl e \<Rightarrow>
             (let error_msg = ''Error processing marketing query: '' @ e
              in (Inl (HTTPException 500 error_msg), lg1 @ [LogError error_msg])))"

text \<open>
  What the framework sends for the outcome of an endpoint: the returned dictionary with
  status 200, and for a raised \<open>HTTPException\<close> its status with the body
  \<open>{"detail": detail}\<close> (the framework's handler, as the test
  \<open>test_crew_query_error_handling\<close> of the repository reads it).
\<close>

definition http_exception_handler :: "http_exception \<Rightarrow> Response" where
  "http_exception_handler exc = JSONResponse (status exc) (JObj [(''detail'', JStr (detail exc))])"

definition endpoint_response :: "http_exception + json_dict \<Rightarrow> Response" where
  "endpoint_response r =
     (case r of
        Inl exc \<Rightarrow> http_exception_handler exc
      | Inr result \<Rightarrow> JSONResponse 200 (JObj result))"

text \<open>\<open>global_exception_handler\<close>: \<open>exc\<close> is the text \<open>str(exc)\<close> of the exception.\<close>

definition global_exception_handler :: "string \<Rightarrow> app_state \<Rightarrow> Response \<times> app_state" where
  "global_exception_handler exc st =
     (JSONResponse 500
        (JObj [(''error'', JStr ''Internal server error''),
               (''detail'', JStr ''An unexpected error occurred''),
               (''timestamp'', JNow (clock st))]),
      st\<lparr>server_log := server_log st @ [UnhandledException exc]\<rparr>)"

text \<open>
  The state of the process is the dictionary of the rate limiter, the log and the clock.
  An application (a route, or a middleware around one) takes a request and the state and
  gives a response, or lets an exception through (\<open>Inl\<close>, with its text).
\<close>

type_synonym handler = "Request \<Rightarrow> app_state \<Rightarrow> (string + Response) \<times> app_state"

text \<open>
  The loop of \<open>add_security_headers\<close> over the items of \<open>get_security_headers()\<close>:
  each \<open>response.headers[header] = value\<close> sets one header.
\<close>

definition with_security_headers :: "(string \<rightharpoonup> string) \<Rightarrow> (string \<rightharpoonup> string)" where
  "with_security_headers hs =
     fold (\<lambda>(header, val) hs. hs(header \<mapsto> val)) get_security_headers hs"

definition add_security_headers :: "handler \<Rightarrow> handler" where
  "add_security_headers call_next request st =
     (case call_next request st of
        (Inl e, st1) \<Rightarrow> (Inl e, st1)
      | (Inr response, st1) \<Rightarrow>
          (Inr (response\<lparr>headers := with_security_headers (headers response)\<rparr>), st1))"

definition rate_limit_middleware :: "SecurityConfig \<Rightarrow> handler \<Rightarrow> handler" where
  "rate_limit_middleware cfg call_next request st =
     (case client_host request of
        None \<Rightarrow>
          (Inl ([CHR 0x27] @ ''NoneType'' @ [CHR 0x27] @ '' object has no attribute ''
                  @ [CHR 0x27] @ ''host'' @ [CHR 0x27]), st)
      | Some client_ip \<Rightarrow>
          (let (ok, requests1) = is_allowed cfg (clock st) client_ip (rate_limiter st);
               st1 = st\<lparr>rate_limiter := requests1\<rparr>
           in if \<not> ok
              then (Inr (JSONResponse 429
                           (JObj [(''error'', JStr ''Rate limit exceeded''),
                                  (''detail'', JStr ''Too many requests'')])),
                    st1\<lparr>server_log := server_log st1 @ [RateLimitExceeded client_ip]\<rparr>)
              else call_next request st1))"

definition log_requests :: "handler \<Rightarrow> handler" where
  "log_requests call_next request st =
     (let st1 = st\<lparr>server_log := server_log st @ [StartRequest (http_method request) (url_path request)]\<rparr>
      in case call_next request st1 of
           (Inl e, st2) \<Rightarrow> (Inl e, st2)
         | (Inr response, st2) \<Rightarrow>
             (Inr response, st2\<lparr>server_log := server_log st2 @ [EndResponse (status_code response)]\<rparr>))"

text \<open>
  The framework's part of the composition. \<open>@app.middleware("http")\<close> registers a
  middleware with \<open>add_middleware\<close>, which inserts it at the head of the list of the
  middlewares registered so far; the stack is built by wrapping the router in the
  middlewares of that list from its last to its first, so the middleware registered last
  is the outermost. Around them all stands the framework's server-error layer, which
  answers an exception that comes through with the handler registered for \<open>Exception\<close>.
\<close>

definition add_middleware :: "(handler \<Rightarrow> handler) \<Rightarrow> (handler \<Rightarrow> handler) list
    \<Rightarrow> (handler \<Rightarrow> handler) list" where
  "add_middleware m user_middleware = m # user_middleware"

definition server_error_middleware :: "handler \<Rightarrow> Request \<Rightarrow> app_state \<Rightarrow> Response \<times> app_state" where
  "server_error_middleware app request st =
     (case app request st of
        (Inl e, st1) \<Rightarrow> global_exception_handler e st1
      | (Inr response, st1) \<Rightarrow> (response, st1))"

definition build_middleware_stack :: "(handler \<Rightarrow> handler) list \<Rightarrow> handler
    \<Rightarrow> Request \<Rightarrow> app_state \<Rightarrow> Response \<times> app_state" where
  "build_middleware_stack user_middleware router =
     server_error_middleware (foldr (\<lambda>m app. m app) user_middleware router)"

text \<open>
  The application of main.py. The module registers \<open>CORSMiddleware\<close> first and then
  the three middleware functions, in the order \<open>add_security_headers\<close>,
  \<open>rate_limit_middleware\<close>, \<open>log_requests\<close>. \<open>router\<close> stands for what lies inside them:
  the routes with the framework's own inner layers (its handlers for \<open>HTTPException\<close>
  and for validation errors) and the CORS middleware.
\<close>

definition app :: "SecurityConfig \<Rightarrow> handler \<Rightarrow> Request \<Rightarrow> app_state \<Rightarrow> Response \<times> app_state" where
  "app cfg router =
     (let user_middleware0 = [];
          user_middleware1 = add_middleware add_security_headers user_middleware0;
          user_middleware2 = add_middleware (rate_limit_middleware cfg) user_middleware1;
          user_middleware3 = add_middleware log_requests user_middleware2
      in build_middleware_stack user_middleware3 router)"

section \<open>The rate limiter: one call and sequences of calls\<close>

text \<open>One call, in terms of the window of the identity.\<close>

lemma is_allowed_eq:
  "is_allowed cfg now c s =
     (let kept = filter (\<lambda>t. now - timedelta_seconds (rate_limit_window cfg) < t) (window_of s c)
      in if rate_limit_requests cfg \<le> int (length kept)
         then (False, s(c \<mapsto> kept))
         else (True, s(c \<mapsto> kept @ [now])))"
  by (simp add: is_allowed_def window_of_def Let_def split: option.splits)

lemma window_of_upd: "window_of (s(c \<mapsto> ts)) c' = (if c' = c then ts else window_of s c')"
  by (simp add: window_of_def)

lemma is_allowed_other: "c' \<noteq> c \<Longrightarrow> snd (is_allowed cfg now c s) c' = s c'"
  by (simp add: is_allowed_eq Let_def)

lemma is_allowed_window:
  "window_of (snd (is_allowed cfg now c s)) c' =
     (if c' = c
      then (let kept = filter (\<lambda>t. now - timedelta_seconds (rate_limit_window cfg) < t) (window_of s c)
            in if fst (is_allowed cfg now c s) then kept @ [now] else kept)
      else window_of s c')"
  by (simp add: is_allowed_eq Let_def window_of_upd)

lemma is_allowed_fst:
  "fst (is_allowed cfg now c s) \<longleftrightarrow>
     int (length (filter (\<lambda>t. now - timedelta_seconds (rate_limit_window cfg) < t) (window_of s c)))
       < rate_limit_requests cfg"
  by (simp add: is_allowed_eq Let_def)

lemma serve_append:
  "serve cfg (xs @ ys) s =
     (let (l1, s1) = serve cfg xs s; (l2, s2) = serve cfg ys s1 in (l1 @ l2, s2))"
  by (induction xs arbitrary: s) (auto simp: Let_def split: prod.splits)

lemma serve_snoc:
  "serve cfg (xs @ [(c, now)]) s =
     (let (l1, s1) = serve cfg xs s; (ok, s2) = is_allowed cfg now c s1
      in (l1 @ [(c, now, ok)], s2))"
  by (simp add: serve_append Let_def split: prod.splits)

lemma serve_snoc_fst:
  "fst (serve cfg (xs @ [(c, now)]) s) =
     fst (serve cfg xs s) @ [(c, now, fst (is_allowed cfg now c (snd (serve cfg xs s))))]"
  by (simp add: serve_snoc Let_def split: prod.splits)

lemma serve_snoc_snd:
  "snd (serve cfg (xs @ [(c, now)]) s) = snd (is_allowed cfg now c (snd (serve cfg xs s)))"
  by (simp add: serve_snoc Let_def split: prod.splits)

lemma serve_Cons_fst:
  "fst (serve cfg ((c, now) # rest) s) =
     (c, now, fst (is_allowed cfg now c s)) # fst (serve cfg rest (snd (is_allowed cfg now c s)))"
  by (simp add: Let_def split: prod.splits)

lemma serve_Cons_snd:
  "snd (serve cfg ((c, now) # rest) s) = snd (serve cfg rest (snd (is_allowed cfg now c s)))"
  by (simp add: Let_def split: prod.splits)

lemma serve_log_times: "map (\<lambda>(ip, t, ok). t) (fst (serve cfg calls s)) = map snd calls"
proof (induction calls arbitrary: s)
  case Nil
  show ?case by simp
next
  case (Cons x calls)
  obtain c now where x: "x = (c, now)" by (cases x)
  show ?case unfolding x by (simp only: serve_Cons_fst list.map prod.case snd_conv Cons.IH)
qed

lemma admitted_times_subset: "set (admitted_times c (fst (serve cfg calls s))) \<subseteq> snd ` set calls"
proof -
  have "set (admitted_times c (fst (serve cfg calls s)))
          \<subseteq> set (map (\<lambda>(ip, t, ok). t) (fst (serve cfg calls s)))"
    by (force simp: admitted_times_def)
  then show ?thesis by (simp only: serve_log_times set_map)
qed

lemma admitted_times_sorted:
  "sorted (map snd calls) \<Longrightarrow> sorted (admitted_times c (fst (serve cfg calls s)))"
  unfolding admitted_times_def
  by (rule sorted_filter) (simp only: serve_log_times)

lemma admitted_times_snoc:
  "admitted_times c (lg @ [(c0, now, ok)]) =
     admitted_times c lg @ (if c0 = c \<and> ok then [now] else [])"
  by (simp add: admitted_times_def)


lemma filter_filter_window:
  "(u::int) \<ge> now \<Longrightarrow> filter (\<lambda>t. u - w < t) (filter (\<lambda>t. now - w < t) xs) = filter (\<lambda>t. u - w < t) xs"
  by (induction xs) auto

text \<open>The stored window agrees with the admitted calls on everything a later check keeps.\<close>

lemma window_tracks_admitted:
  "sorted (map snd calls) \<Longrightarrow> \<forall>x \<in> set calls. snd x \<le> u \<Longrightarrow>
   filter (\<lambda>t. u - timedelta_seconds (rate_limit_window cfg) < t)
       (window_of (snd (serve cfg calls Map.empty)) c) =
   filter (\<lambda>t. u - timedelta_seconds (rate_limit_window cfg) < t)
       (admitted_times c (fst (serve cfg calls Map.empty)))"
proof (induction calls arbitrary: u rule: rev_induct)
  case Nil
  show ?case by (simp add: window_of_def admitted_times_def)
next
  case (snoc x calls)
  obtain c0 now where x: "x = (c0, now)" by (cases x)
  let ?w = "timedelta_seconds (rate_limit_window cfg)"
  let ?s = "snd (serve cfg calls Map.empty)"
  let ?log = "fst (serve cfg calls Map.empty)"
  from snoc.prems have srt: "sorted (map snd calls)" and le_now: "\<forall>y \<in> set calls. snd y \<le> now"
    and now_u: "now \<le> u"
    by (auto simp: x sorted_append)
  from le_now now_u have le_u: "\<forall>y \<in> set calls. snd y \<le> u" by fastforce
  have ih_u: "filter (\<lambda>t. u - ?w < t) (window_of ?s c) = filter (\<lambda>t. u - ?w < t) (admitted_times c ?log)"
    by (rule snoc.IH [OF srt le_u])
  have ih_now: "filter (\<lambda>t. now - ?w < t) (window_of ?s c) = filter (\<lambda>t. now - ?w < t) (admitted_times c ?log)"
    by (rule snoc.IH [OF srt le_now])
  show ?case
  proof (cases "c0 = c")
    case False
    then show ?thesis
      using ih_u by (simp add: x serve_snoc_fst serve_snoc_snd is_allowed_window admitted_times_snoc)
  next
    case True
    have "filter (\<lambda>t. u - ?w < t) (filter (\<lambda>t. now - ?w < t) (window_of ?s c)) =
          filter (\<lambda>t. u - ?w < t) (admitted_times c ?log)"
      by (simp only: ih_now filter_filter_window [OF now_u])
    then show ?thesis
      by (simp add: x True serve_snoc_fst serve_snoc_snd is_allowed_window admitted_times_snoc Let_def)
  qed
qed

lemma length_filter_mono:
  "(\<And>x. x \<in> set xs \<Longrightarrow> P x \<Longrightarrow> Q x) \<Longrightarrow> length (filter P xs) \<le> length (filter Q xs)"
  by (induction xs) auto

lemma admitted_window_bound:
  "sorted (map snd calls) \<Longrightarrow> 0 \<le> rate_limit_requests cfg \<Longrightarrow>
   int (length (filter (\<lambda>t. a < t \<and> t \<le> a + timedelta_seconds (rate_limit_window cfg))
          (admitted_times c (fst (serve cfg calls Map.empty))))) \<le> rate_limit_requests cfg"
proof (induction calls rule: rev_induct)
  case Nil
  then show ?case by (simp add: admitted_times_def)
next
  case (snoc x calls)
  obtain c0 now where x: "x = (c0, now)" by (cases x)
  let ?w = "timedelta_seconds (rate_limit_window cfg)"
  let ?s = "snd (serve cfg calls Map.empty)"
  let ?A = "admitted_times c (fst (serve cfg calls Map.empty))"
  let ?ok = "fst (is_allowed cfg now c0 ?s)"
  from snoc.prems have srt: "sorted (map snd calls)" and le_now: "\<forall>y \<in> set calls. snd y \<le> now"
    by (auto simp: x sorted_append)
  have ih: "int (length (filter (\<lambda>t. a < t \<and> t \<le> a + ?w) ?A)) \<le> rate_limit_requests cfg"
    by (rule snoc.IH [OF srt snoc.prems(2)])
  show ?case
  proof (cases "c0 = c \<and> ?ok \<and> a < now \<and> now \<le> a + ?w")
    case False
    then show ?thesis using ih
      by (auto simp: x serve_snoc_fst admitted_times_snoc)
  next
    case True
    have A_le: "\<And>t. t \<in> set ?A \<Longrightarrow> t \<le> now"
      using admitted_times_subset [of c cfg calls Map.empty] le_now by auto
    have "length (filter (\<lambda>t. a < t \<and> t \<le> a + ?w) ?A) \<le> length (filter (\<lambda>t. now - ?w < t) ?A)"
      by (rule length_filter_mono) (use True in auto)
    also have "filter (\<lambda>t. now - ?w < t) ?A = filter (\<lambda>t. now - ?w < t) (window_of ?s c)"
      by (rule window_tracks_admitted [OF srt le_now, symmetric])
    finally have le: "length (filter (\<lambda>t. a < t \<and> t \<le> a + ?w) ?A)
        \<le> length (filter (\<lambda>t. now - ?w < t) (window_of ?s c))" .
    from True have "int (length (filter (\<lambda>t. now - ?w < t) (window_of ?s c))) < rate_limit_requests cfg"
      by (auto simp: is_allowed_fst)
    with le have "int (length (filter (\<lambda>t. a < t \<and> t \<le> a + ?w) ?A)) < rate_limit_requests cfg"
      by linarith
    then show ?thesis using True
      by (simp add: x serve_snoc_fst admitted_times_snoc)
  qed
qed


lemma serve_upper:
  "\<forall>x \<in> set calls. snd x \<le> u \<Longrightarrow> \<forall>c. \<forall>t \<in> set (window_of s c). t \<le> u \<Longrightarrow>
   \<forall>c. \<forall>t \<in> set (window_of (snd (serve cfg calls s)) c). t \<le> u"
proof (induction calls arbitrary: s)
  case Nil
  then show ?case by simp
next
  case (Cons x calls)
  obtain c0 now where x: "x = (c0, now)" by (cases x)
  from Cons.prems(1) have now_u: "now \<le> u" and rest: "\<forall>y \<in> set calls. snd y \<le> u"
    by (auto simp: x)
  have "\<forall>c. \<forall>t \<in> set (window_of (snd (is_allowed cfg now c0 s)) c). t \<le> u"
    using Cons.prems(2) now_u by (auto simp: is_allowed_window Let_def)
  from Cons.IH [OF rest this] show ?case unfolding x serve_Cons_snd .
qed

lemma serve_length:
  "0 \<le> rate_limit_requests cfg \<Longrightarrow>
   \<forall>c. int (length (window_of s c)) \<le> rate_limit_requests cfg \<Longrightarrow>
   \<forall>c. int (length (window_of (snd (serve cfg calls s)) c)) \<le> rate_limit_requests cfg"
proof (induction calls arbitrary: s)
  case Nil
  then show ?case by simp
next
  case (Cons x calls)
  obtain c0 now where x: "x = (c0, now)" by (cases x)
  have "\<forall>c. int (length (window_of (snd (is_allowed cfg now c0 s)) c)) \<le> rate_limit_requests cfg"
  proof
    fix c
    show "int (length (window_of (snd (is_allowed cfg now c0 s)) c)) \<le> rate_limit_requests cfg"
    proof (cases "c = c0")
      case False
      then show ?thesis using Cons.prems(2) by (simp add: is_allowed_window)
    next
      case True
      let ?kept = "filter (\<lambda>t. now - timedelta_seconds (rate_limit_window cfg) < t) (window_of s c0)"
      have "length ?kept \<le> length (window_of s c0)"
        by (rule length_filter_le)
      moreover have "int (length (window_of s c0)) \<le> rate_limit_requests cfg"
        using Cons.prems(2) by blast
      ultimately have "int (length ?kept) \<le> rate_limit_requests cfg"
        by linarith
      then show ?thesis
        by (simp add: True is_allowed_window is_allowed_fst Let_def)
    qed
  qed
  from Cons.IH [OF Cons.prems(1) this] show ?case unfolding x serve_Cons_snd .
qed

lemma serve_others:
  "\<forall>x \<in> set calls. fst x \<noteq> c \<Longrightarrow> snd (serve cfg calls s) c = s c"
proof (induction calls arbitrary: s)
  case Nil
  then show ?case by simp
next
  case (Cons x calls)
  obtain c0 now where x: "x = (c0, now)" by (cases x)
  from Cons.prems have ne: "c \<noteq> c0" and rest: "\<forall>y \<in> set calls. fst y \<noteq> c" by (auto simp: x)
  show ?case
    by (simp only: x serve_Cons_snd Cons.IH [OF rest] is_allowed_other [OF ne])
qed

lemma window_of_cong: "s c = s' c \<Longrightarrow> window_of s c = window_of s' c"
  by (simp add: window_of_def)

section \<open>Claims about the rate limiter\<close>

text \<open>
  C4 (as amended). For every dictionary, identity and clock reading, one call of
  \<open>is_allowed\<close> keeps of that identity's window exactly the entries later than
  \<open>now - window\<close>, in their order: an entry is dropped when it is older than, or exactly
  at, \<open>now - window\<close>. The call returns true exactly when fewer entries than the quota
  remain; then the window is the kept entries followed by \<open>now\<close>, and otherwise it is the
  kept entries alone (the current call is not recorded). The entry of every other
  identity is left as it was.
\<close>

theorem is_allowed_spec:
  "let window_start = now - timedelta_seconds (rate_limit_window cfg);
       kept = filter (\<lambda>t. \<not> t \<le> window_start) (window_of reqs client_ip);
       (ok, reqs') = is_allowed cfg now client_ip reqs
   in (ok \<longleftrightarrow> int (length kept) < rate_limit_requests cfg) \<and>
      window_of reqs' client_ip = (if ok then kept @ [now] else kept) \<and>
      (\<forall>other. other \<noteq> client_ip \<longrightarrow> reqs' other = reqs other)"
proof -
  have eq: "(\<lambda>t. \<not> t \<le> now - timedelta_seconds (rate_limit_window cfg)) =
            (\<lambda>t. now - timedelta_seconds (rate_limit_window cfg) < t)"
    by (auto simp: fun_eq_iff)
  show ?thesis
    by (simp add: Let_def split_def eq is_allowed_fst is_allowed_window is_allowed_other)
qed

theorem is_allowed_spec_witness:
  "let (ok, reqs') = is_allowed (config_with_limits 2 60) 61000000 ''A''
                       [''A'' \<mapsto> [0, 1000000, 2000000], ''B'' \<mapsto> [5]]
   in ok \<and> window_of reqs' ''A'' = [2000000, 61000000] \<and>
      ''B'' \<noteq> ''A'' \<and> reqs' ''B'' = Some [5]"
  using is_allowed_spec [where now = 61000000 and cfg = "config_with_limits 2 60"
      and reqs = "[''A'' \<mapsto> [0, 1000000, 2000000], ''B'' \<mapsto> [5]]" and client_ip = "''A''"]
  by (simp add: config_with_limits_def Let_def window_of_def timedelta_seconds_def
      split: prod.splits)

text \<open>
  The claim as written drops only the entries strictly older than \<open>now - window\<close>. With
  quota 1 and a window of 60 seconds, a request at 0 and one exactly 60 seconds later:
  the entry at 0 is not strictly older than \<open>now - window = 0\<close>, yet the second call
  drops it and is admitted.
\<close>

theorem is_allowed_boundary_counterexample:
  "fst (serve (config_with_limits 1 60) [(''A'', 0), (''A'', 60000000)] Map.empty)
     = [(''A'', 0, True), (''A'', 60000000, True)] \<and>
   window_of (snd (serve (config_with_limits 1 60) [(''A'', 0)] Map.empty)) ''A'' = [0] \<and>
   \<not> (0 < 60000000 - timedelta_seconds (rate_limit_window (config_with_limits 1 60))) \<and>
   window_of (snd (serve (config_with_limits 1 60) [(''A'', 0), (''A'', 60000000)] Map.empty)) ''A''
     = [60000000]"
  by (simp add: config_with_limits_def is_allowed_def window_of_def timedelta_seconds_def)

text \<open>
  C5 (as amended). Calls arrive with a clock that does not go back, the quota is at
  least 1, and the dictionary starts empty. Then for every identity and every instant
  \<open>a\<close>, at most \<open>quota\<close> of the admitted calls of that identity lie in the window
  \<open>(a, a + window]\<close>, which is the trailing window a check at \<open>a + window\<close> looks back
  on and which leaves out its older end: two calls exactly one window apart do not lie
  in one such window. A call that finds \<open>quota\<close> admitted calls of its identity later
  than \<open>now - window\<close> is rejected; and a call that comes more than the window after the
  last admitted call of its identity (or finds none) is admitted.
\<close>

theorem sliding_window_quota:
  assumes "sorted (map snd (calls @ [(c, now)]))" and "1 \<le> rate_limit_requests cfg"
  shows "let w = timedelta_seconds (rate_limit_window cfg);
             lg = fst (serve cfg calls Map.empty);
             ok = fst (is_allowed cfg now c (snd (serve cfg calls Map.empty)))
         in (\<forall>c' a. int (length (filter (\<lambda>t. a < t \<and> t \<le> a + w)
                 (admitted_times c' (fst (serve cfg (calls @ [(c, now)]) Map.empty)))))
               \<le> rate_limit_requests cfg) \<and>
            (rate_limit_requests cfg \<le> int (length (filter (\<lambda>t. now - w < t) (admitted_times c lg)))
               \<longrightarrow> \<not> ok) \<and>
            (admitted_times c lg = [] \<or> last (admitted_times c lg) + w < now \<longrightarrow> ok)"
proof -
  let ?w = "timedelta_seconds (rate_limit_window cfg)"
  let ?lg = "fst (serve cfg calls Map.empty)"
  let ?s = "snd (serve cfg calls Map.empty)"
  let ?A = "admitted_times c ?lg"
  from assms(1) have srt: "sorted (map snd calls)" and le_now: "\<forall>y \<in> set calls. snd y \<le> now"
    by (auto simp: sorted_append)
  have q: "0 \<le> rate_limit_requests cfg" using assms(2) by simp
  have track: "filter (\<lambda>t. now - ?w < t) (window_of ?s c) = filter (\<lambda>t. now - ?w < t) ?A"
    by (rule window_tracks_admitted [OF srt le_now])
  have ok_iff: "fst (is_allowed cfg now c ?s) \<longleftrightarrow>
      int (length (filter (\<lambda>t. now - ?w < t) ?A)) < rate_limit_requests cfg"
    by (simp add: is_allowed_fst track)
  have part1: "\<forall>c' a. int (length (filter (\<lambda>t. a < t \<and> t \<le> a + ?w)
                 (admitted_times c' (fst (serve cfg (calls @ [(c, now)]) Map.empty)))))
               \<le> rate_limit_requests cfg"
    using admitted_window_bound [OF assms(1) q] by blast
  have part2: "rate_limit_requests cfg \<le> int (length (filter (\<lambda>t. now - ?w < t) ?A))
      \<longrightarrow> \<not> fst (is_allowed cfg now c ?s)"
    by (simp add: ok_iff)
  have part3: "?A = [] \<or> last ?A + ?w < now \<longrightarrow> fst (is_allowed cfg now c ?s)"
  proof
    assume h: "?A = [] \<or> last ?A + ?w < now"
    have "filter (\<lambda>t. now - ?w < t) ?A = []"
    proof (cases "?A = []")
      case True
      then show ?thesis by simp
    next
      case False
      with h have lt: "last ?A + ?w < now" by simp
      have s: "sorted ?A" by (rule admitted_times_sorted [OF srt])
      have "\<forall>t \<in> set ?A. t \<le> last ?A"
      proof
        fix t assume "t \<in> set ?A"
        then obtain i where i: "i < length ?A" "?A ! i = t" by (auto simp: in_set_conv_nth)
        then have "?A ! i \<le> ?A ! (length ?A - 1)"
          using s by (intro sorted_nth_mono) auto
        then show "t \<le> last ?A" using i False by (simp add: last_conv_nth)
      qed
      with lt show ?thesis by (auto simp: filter_empty_conv)
    qed
    then show "fst (is_allowed cfg now c ?s)"
      using assms(2) by (simp add: ok_iff)
  qed
  from part1 part2 part3 show ?thesis by (simp only: Let_def) blast
qed

theorem sliding_window_quota_witness:
  "sorted (map snd ([(''A'', 0), (''A'', 1000000)] @ [(''A'', 2000000::int)])) \<and>
   1 \<le> rate_limit_requests (config_with_limits 2 60) \<and>
   \<not> fst (is_allowed (config_with_limits 2 60) 2000000 ''A''
            (snd (serve (config_with_limits 2 60) [(''A'', 0), (''A'', 1000000)] Map.empty))) \<and>
   fst (is_allowed (config_with_limits 2 60) 62000000 ''A''
          (snd (serve (config_with_limits 2 60)
                  [(''A'', 0), (''A'', 1000000), (''A'', 2000000)] Map.empty))) \<and>
   int (length (filter (\<lambda>t. 0 < t \<and> t \<le> 0 + timedelta_seconds 60)
      (admitted_times ''A''
         (fst (serve (config_with_limits 2 60)
                 ([(''A'', 0), (''A'', 1000000)] @ [(''A'', 2000000)]) Map.empty))))) \<le> 2"
proof -
  have h1: "sorted (map snd ([(''A'', 0), (''A'', 1000000)] @ [(''A'', 2000000::int)]))"
    by simp
  have h2: "sorted (map snd ([(''A'', 0), (''A'', 1000000), (''A'', 2000000)]
                @ [(''A'', 62000000::int)]))"
    by simp
  have q: "1 \<le> rate_limit_requests (config_with_limits 2 60)"
    by (simp add: config_with_limits_def)
  show ?thesis
    using sliding_window_quota [OF h1 q] sliding_window_quota [OF h2 q]
    by (simp add: config_with_limits_def Let_def is_allowed_def window_of_def
        timedelta_seconds_def admitted_times_def)
qed

text \<open>
  The claim as written counts the trailing window with both its ends,
  \<open>[now - window, now]\<close>, as the specification does throughout. With quota 1 and a
  window of 60 seconds, the clock not going back, a call at 0 and one exactly 60 seconds
  later are both admitted: the closed window \<open>[0, 60 s]\<close> that trails the second call
  holds two admitted calls, one more than the quota, and the second call, which found a
  recorded call inside that window, was not rejected.
\<close>

theorem closed_window_counterexample:
  "sorted (map snd [(''A'', 0), (''A'', 60000000::int)]) \<and>
   1 \<le> rate_limit_requests (config_with_limits 1 60) \<and>
   admitted_times ''A''
     (fst (serve (config_with_limits 1 60) [(''A'', 0), (''A'', 60000000)] Map.empty))
     = [0, 60000000] \<and>
   int (length (filter
      (\<lambda>t. 60000000 - timedelta_seconds (rate_limit_window (config_with_limits 1 60)) \<le> t \<and>
           t \<le> 60000000)
      (admitted_times ''A''
         (fst (serve (config_with_limits 1 60) [(''A'', 0), (''A'', 60000000)] Map.empty)))))
     = rate_limit_requests (config_with_limits 1 60) + 1 \<and>
   fst (is_allowed (config_with_limits 1 60) 60000000 ''A''
          (snd (serve (config_with_limits 1 60) [(''A'', 0)] Map.empty)))"
  by (simp add: config_with_limits_def is_allowed_def window_of_def timedelta_seconds_def
      admitted_times_def)

text \<open>
  C7. Calls arrive with a clock that does not go back, the window is not negative, and
  the dictionary starts empty. Then right after a check for an identity every time
  stored for it lies in \<open>[now - window, now]\<close>, and the entry of every other identity is
  what it was before the check, stale times included.
\<close>

theorem window_within_bounds:
  assumes "sorted (map snd (calls @ [(c, now)]))" and "0 \<le> rate_limit_window cfg"
  shows "let s = snd (serve cfg calls Map.empty);
             s' = snd (is_allowed cfg now c s)
         in (\<forall>t \<in> set (window_of s' c).
               now - timedelta_seconds (rate_limit_window cfg) \<le> t \<and> t \<le> now) \<and>
            (\<forall>c'. c' \<noteq> c \<longrightarrow> s' c' = s c')"
proof -
  let ?s = "snd (serve cfg calls Map.empty)"
  from assms(1) have le_now: "\<forall>y \<in> set calls. snd y \<le> now"
    by (auto simp: sorted_append)
  have "\<forall>c. \<forall>t \<in> set (window_of Map.empty c). t \<le> now"
    by (simp add: window_of_def)
  from serve_upper [OF le_now this]
  have up: "\<forall>t \<in> set (window_of ?s c). t \<le> now" by blast
  have w: "0 \<le> timedelta_seconds (rate_limit_window cfg)"
    using assms(2) by (simp add: timedelta_seconds_def)
  have "\<forall>t \<in> set (window_of (snd (is_allowed cfg now c ?s)) c).
          now - timedelta_seconds (rate_limit_window cfg) \<le> t \<and> t \<le> now"
    using up w by (auto simp: is_allowed_window Let_def)
  then show ?thesis
    by (simp add: Let_def is_allowed_other)
qed

theorem window_within_bounds_witness:
  "sorted (map snd ([(''A'', 0), (''B'', 5000000)] @ [(''A'', 70000000::int)])) \<and>
   0 \<le> rate_limit_window (config_with_limits 2 60) \<and>
   window_of (snd (is_allowed (config_with_limits 2 60) 70000000 ''A''
                (snd (serve (config_with_limits 2 60) [(''A'', 0), (''B'', 5000000)] Map.empty))))
      ''A'' = [70000000] \<and>
   ''B'' \<noteq> ''A'' \<and>
   snd (is_allowed (config_with_limits 2 60) 70000000 ''A''
          (snd (serve (config_with_limits 2 60) [(''A'', 0), (''B'', 5000000)] Map.empty)))
      ''B'' = Some [5000000]"
proof -
  have h1: "sorted (map snd ([(''A'', 0), (''B'', 5000000)] @ [(''A'', 70000000::int)]))"
    by simp
  have h2: "0 \<le> rate_limit_window (config_with_limits 2 60)"
    by (simp add: config_with_limits_def)
  show ?thesis
    using window_within_bounds [OF h1 h2]
    by (simp add: config_with_limits_def Let_def is_allowed_def window_of_def
        timedelta_seconds_def)
qed

text \<open>
  C8. For two distinct identities \<open>A\<close> and \<open>B\<close>, and from any dictionary, any sequence of
  calls for \<open>A\<close> changes neither the result of the next call for \<open>B\<close> nor the window it
  leaves for \<open>B\<close>.
\<close>

theorem identities_independent:
  assumes "A \<noteq> B"
  shows "let s' = snd (serve cfg (map (\<lambda>t. (A, t)) ts) s)
         in fst (is_allowed cfg now B s') = fst (is_allowed cfg now B s) \<and>
            window_of (snd (is_allowed cfg now B s')) B = window_of (snd (is_allowed cfg now B s)) B"
proof -
  have "\<forall>x \<in> set (map (\<lambda>t. (A, t)) ts). fst x \<noteq> B"
    using assms by auto
  from serve_others [OF this]
  have "window_of (snd (serve cfg (map (\<lambda>t. (A, t)) ts) s)) B = window_of s B"
    by (rule window_of_cong)
  then show ?thesis
    by (simp add: Let_def is_allowed_fst is_allowed_window)
qed

theorem identities_independent_witness:
  "''A'' \<noteq> ''B'' \<and>
   \<not> fst (is_allowed (config_with_limits 2 60) 3 ''A''
            (snd (serve (config_with_limits 2 60) (map (\<lambda>t. (''A'', t)) [0, 1, 2]) Map.empty))) \<and>
   fst (is_allowed (config_with_limits 2 60) 3 ''B''
          (snd (serve (config_with_limits 2 60) (map (\<lambda>t. (''A'', t)) [0, 1, 2]) Map.empty))) \<and>
   fst (is_allowed (config_with_limits 2 60) 3 ''B'' Map.empty)"
proof -
  have ne: "''A'' \<noteq> ''B''" by simp
  show ?thesis
    using identities_independent [OF ne, where cfg = "config_with_limits 2 60" and now = 3
        and ts = "[0, 1, 2]" and s = Map.empty]
    by (simp add: config_with_limits_def Let_def is_allowed_def window_of_def
        timedelta_seconds_def)
qed

text \<open>
  C10. With a quota of at least 1, after any sequence of calls from the empty dictionary
  no identity's window holds more times than the quota.
\<close>

theorem window_length_bound:
  assumes "1 \<le> rate_limit_requests cfg"
  shows "int (length (window_of (snd (serve cfg calls Map.empty)) c)) \<le> rate_limit_requests cfg"
proof -
  have q: "0 \<le> rate_limit_requests cfg" using assms by simp
  have "\<forall>c. int (length (window_of Map.empty c)) \<le> rate_limit_requests cfg"
    using q by (simp add: window_of_def)
  from serve_length [OF q this] show ?thesis by blast
qed

theorem window_length_bound_witness:
  "1 \<le> rate_limit_requests (config_with_limits 2 60) \<and>
   window_of (snd (serve (config_with_limits 2 60)
                 [(''A'', 0), (''A'', 1), (''A'', 2), (''A'', 3)] Map.empty)) ''A'' = [0, 1] \<and>
   int (length (window_of
      (snd (serve (config_with_limits 2 60) [(''A'', 0), (''A'', 1), (''A'', 2), (''A'', 3)]
              Map.empty)) ''A'')) \<le> 2"
proof -
  have q: "1 \<le> rate_limit_requests (config_with_limits 2 60)"
    by (simp add: config_with_limits_def)
  show ?thesis
    using q window_length_bound [OF q, where calls = "[(''A'', 0), (''A'', 1), (''A'', 2), (''A'', 3)]"
        and c = "''A''"]
    by (simp add: config_with_limits_def is_allowed_def window_of_def timedelta_seconds_def)
qed

section \<open>The authenticator\<close>

text \<open>
  The two cases in which the authenticator does what the environment-sensitive rule
  says: the bypass in development mode, and the rejection outside development mode of a
  request that presents nothing.
\<close>

lemma get_api_keys_empty_env: "API_KEYS cfg = [] \<Longrightarrow> get_api_keys cfg = []"
  by (simp add: get_api_keys_def strip_def)

lemma development_bypass:
  "environment cfg = ''development'' \<Longrightarrow> get_api_keys cfg = [] \<Longrightarrow>
   APIKeyAuth_call cfg request = Inr None"
  by (simp add: APIKeyAuth_call_def)

lemma production_without_credential_rejected:
  "environment cfg \<noteq> ''development'' \<Longrightarrow> x_api_key request \<in> {None, Some []} \<Longrightarrow>
   bearer request = None \<Longrightarrow>
   APIKeyAuth_call cfg request = Inl (HTTPException 401 ''Invalid or missing API key'')"
  by (auto simp: APIKeyAuth_call_def check_bearer_def)

text \<open>
  C1. The claim has production mode with no configured key reject every request. The
  code at such a request: the environment is \<open>production\<close>, \<open>API_KEYS\<close> is empty, and the
  request presents an arbitrary value, once in the header \<open>X-API-Key\<close> and once as a bearer
  token. Both are admitted with that value as the credential, because
  \<open>validate_api_key\<close> accepts every key when none is configured, whatever the
  environment.
\<close>

theorem production_without_keys_admits_any_key:
  "get_api_keys \<lparr>environment = ''production'', rate_limit_requests = 100,
       rate_limit_window = 3600, API_KEYS = ''''\<rparr> = [] \<and>
   APIKeyAuth_call
     \<lparr>environment = ''production'', rate_limit_requests = 100,
        rate_limit_window = 3600, API_KEYS = ''''\<rparr>
     \<lparr>client_host = Some ''10.0.0.1'', http_method = ''POST'', url_path = ''/crewai'',
        x_api_key = Some ''anything'', bearer = None\<rparr>
     = Inr (Some \<lparr>scheme = ''ApiKey'', credentials = ''anything''\<rparr>) \<and>
   APIKeyAuth_call
     \<lparr>environment = ''production'', rate_limit_requests = 100,
        rate_limit_window = 3600, API_KEYS = ''''\<rparr>
     \<lparr>client_host = Some ''10.0.0.1'', http_method = ''POST'', url_path = ''/crewai'',
        x_api_key = None, bearer = Some \<lparr>scheme = ''Bearer'', credentials = ''anything''\<rparr>\<rparr>
     = Inr (Some \<lparr>scheme = ''Bearer'', credentials = ''anything''\<rparr>)"
  by (simp add: APIKeyAuth_call_def check_bearer_def validate_api_key_def get_api_keys_def strip_def)

text \<open>
  C9 (as amended). When no key is configured, \<open>validate_api_key\<close> is true of every
  key in every environment, and a request whose header \<open>X-API-Key\<close> has a non-empty
  value is admitted: with no credential in development mode, and with that value as
  the credential in every other mode, production included.
\<close>

theorem empty_keys_admit_any_key:
  assumes "get_api_keys cfg = []"
  shows "validate_api_key cfg key \<and>
         (x_api_key request = Some key \<and> key \<noteq> [] \<longrightarrow>
            APIKeyAuth_call cfg request =
              Inr (if environment cfg = ''development'' then None
                   else Some \<lparr>scheme = ''ApiKey'', credentials = key\<rparr>))"
  using assms by (simp add: validate_api_key_def APIKeyAuth_call_def)

theorem empty_keys_admit_any_key_witness:
  "get_api_keys \<lparr>environment = ''production'', rate_limit_requests = 100,
       rate_limit_window = 3600, API_KEYS = '' , ''\<rparr> = [] \<and>
   validate_api_key \<lparr>environment = ''production'', rate_limit_requests = 100,
       rate_limit_window = 3600, API_KEYS = '' , ''\<rparr> ''anything'' \<and>
   APIKeyAuth_call
     \<lparr>environment = ''production'', rate_limit_requests = 100,
        rate_limit_window = 3600, API_KEYS = '' , ''\<rparr>
     \<lparr>client_host = Some ''10.0.0.1'', http_method = ''POST'', url_path = ''/crewai'',
        x_api_key = Some ''anything'', bearer = None\<rparr>
     = Inr (Some \<lparr>scheme = ''ApiKey'', credentials = ''anything''\<rparr>)"
proof -
  have h: "get_api_keys \<lparr>environment = ''production'', rate_limit_requests = 100,
       rate_limit_window = 3600, API_KEYS = '' , ''\<rparr> = []"
    by (simp add: get_api_keys_def strip_def isspace_def)
  show ?thesis
    using h empty_keys_admit_any_key [OF h, where key = "''anything''"
      and request = "\<lparr>client_host = Some ''10.0.0.1'', http_method = ''POST'',
        url_path = ''/crewai'', x_api_key = Some ''anything'', bearer = None\<rparr>"]
    by simp
qed

text \<open>
  The claim as written admits any value of the header. In production mode with no key
  configured, a request whose header is present with the empty value, and which has no
  bearer token, is rejected with 401: \<open>if api_key and ...\<close> is false for the empty
  string.
\<close>

theorem empty_header_value_counterexample:
  "get_api_keys \<lparr>environment = ''production'', rate_limit_requests = 100,
       rate_limit_window = 3600, API_KEYS = ''''\<rparr> = [] \<and>
   APIKeyAuth_call
     \<lparr>environment = ''production'', rate_limit_requests = 100,
        rate_limit_window = 3600, API_KEYS = ''''\<rparr>
     \<lparr>client_host = Some ''10.0.0.1'', http_method = ''POST'', url_path = ''/crewai'',
        x_api_key = Some [], bearer = None\<rparr>
     = Inl (HTTPException 401 ''Invalid or missing API key'')"
  by (simp add: APIKeyAuth_call_def check_bearer_def get_api_keys_def strip_def)

section \<open>Query validation\<close>









text \<open>
  \<open>strip\<close> removes a run of whitespace at each end and nothing else, and what it leaves
  neither starts nor ends with whitespace.
\<close>

lemma strip_spec:
  "\<exists>l r. q = l @ strip q @ r \<and> (\<forall>c \<in> set l. isspace c) \<and> (\<forall>c \<in> set r. isspace c) \<and>
     (strip q \<noteq> [] \<longrightarrow> \<not> isspace (hd (strip q)) \<and> \<not> isspace (last (strip q)))"
proof -
  let ?l = "takeWhile isspace q"
  let ?m = "dropWhile isspace q"
  let ?r = "rev (takeWhile isspace (rev ?m))"
  have "rev (takeWhile isspace (rev ?m) @ dropWhile isspace (rev ?m)) =
          rev (dropWhile isspace (rev ?m)) @ rev (takeWhile isspace (rev ?m))"
    by (rule rev_append)
  then have "?m = rev (dropWhile isspace (rev ?m)) @ ?r"
    by (simp only: takeWhile_dropWhile_id rev_rev_ident)
  then have m: "?m = strip q @ ?r" by (simp only: strip_def)
  have q: "q = ?l @ strip q @ ?r"
    using m takeWhile_dropWhile_id [of isspace q] by simp
  have l: "\<forall>c \<in> set ?l. isspace c" by (auto dest: set_takeWhileD)
  have r: "\<forall>c \<in> set ?r. isspace c" by (auto dest: set_takeWhileD)
  have ends: "\<not> isspace (hd (strip q)) \<and> \<not> isspace (last (strip q))" if ne: "strip q \<noteq> []"
  proof
    from m ne have mne: "?m \<noteq> []" by (metis append_is_Nil_conv)
    have "hd (strip q) = hd ?m" using m ne by (metis hd_append2)
    then show "\<not> isspace (hd (strip q))" using hd_dropWhile [OF mne] by simp
    from ne have "dropWhile isspace (rev ?m) \<noteq> []" by (simp add: strip_def)
    from hd_dropWhile [OF this] show "\<not> isspace (last (strip q))"
      using ne by (simp add: strip_def last_rev)
  qed
  from q l r ends show ?thesis by blast
qed








text \<open>
  The pattern \<open>shell=True\<close> has an upper-case letter and is looked for in lowercased
  text, where it cannot occur (\<open>shell_pattern_never_found\<close>): a query that contains it
  passes.
\<close>

lemma shell_true_accepted:
  "validate_query (Some ''run it with shell=True'') = Inr ''run it with shell=True''"
  by code_simp

section \<open>The application\<close>

lemma app_unfold:
  "app cfg router =
     server_error_middleware (log_requests (rate_limit_middleware cfg (add_security_headers router)))"
  by (simp add: app_def build_middleware_stack_def add_middleware_def Let_def)

lemma security_headers_set:
  "map (with_security_headers hs0) (map fst get_security_headers)
     = map (Some \<circ> snd) get_security_headers"
  unfolding with_security_headers_def get_security_headers_def by simp

lemma add_security_headers_response:
  "router request st = (Inr r, st') \<Longrightarrow>
   add_security_headers router request st =
     (Inr (r\<lparr>headers := with_security_headers (headers r)\<rparr>), st')"
  by (simp add: add_security_headers_def with_security_headers_def)

text \<open>
  A request that the rate limiter admits and the router answers leaves with the six
  security headers; a request that the rate limiter rejects is answered with 429 by
  \<open>rate_limit_middleware\<close> itself, and an exception that the router lets through is
  answered with 500 by the server-error layer, both outside \<open>add_security_headers\<close>.
\<close>

lemma app_admitted:
  assumes "client_host request = Some ip"
    and "fst (is_allowed cfg (clock st) ip (rate_limiter st))"
    and "\<And>s. \<exists>r s'. router request s = (Inr r, s')"
  shows "map (headers (fst (app cfg router request st))) (map fst get_security_headers)
           = map (Some \<circ> snd) get_security_headers"
proof -
  let ?st1 = "st\<lparr>server_log := server_log st @ [StartRequest (http_method request) (url_path request)]\<rparr>"
  let ?st2 = "?st1\<lparr>rate_limiter := snd (is_allowed cfg (clock st) ip (rate_limiter st))\<rparr>"
  obtain r s' where rt: "router request ?st2 = (Inr r, s')" using assms(3) by blast
  have r': "add_security_headers router request ?st2 =
      (Inr (r\<lparr>headers := with_security_headers (headers r)\<rparr>), s')"
    using rt by (rule add_security_headers_response)
  have "fst (app cfg router request st) = r\<lparr>headers := with_security_headers (headers r)\<rparr>"
    using assms(1,2) r'
    by (simp add: app_unfold server_error_middleware_def log_requests_def rate_limit_middleware_def
        Let_def split_def)
  then have "headers (fst (app cfg router request st)) = with_security_headers (headers r)"
    by simp
  then show ?thesis by (simp only: security_headers_set)
qed

lemma app_rate_limited:
  assumes "client_host request = Some ip"
    and "\<not> fst (is_allowed cfg (clock st) ip (rate_limiter st))"
  shows "fst (app cfg router request st) =
           JSONResponse 429 (JObj [(''error'', JStr ''Rate limit exceeded''),
                                   (''detail'', JStr ''Too many requests'')])"
  using assms
  by (simp add: app_unfold server_error_middleware_def log_requests_def rate_limit_middleware_def
      Let_def split_def)

lemma app_unhandled:
  assumes "client_host request = Some ip"
    and "fst (is_allowed cfg (clock st) ip (rate_limiter st))"
    and "\<And>s. router request s = (Inl e, s)"
  shows "fst (app cfg router request st) =
           JSONResponse 500 (JObj [(''error'', JStr ''Internal server error''),
                                   (''detail'', JStr ''An unexpected error occurred''),
                                   (''timestamp'', JNow (clock st))])"
  using assms
  by (simp add: app_unfold server_error_middleware_def log_requests_def rate_limit_middleware_def
      add_security_headers_def global_exception_handler_def Let_def split_def)

text \<open>
  C2. The claim has every response carry the six security headers. The code at two
  requests of one client, one second apart, with a quota of 1: the first is answered
  by the router and carries the headers (here \<open>X-Frame-Options\<close>); the second is
  answered with 429 and carries none of them.
\<close>

theorem rate_limited_response_lacks_security_headers:
  "let cfg = \<lparr>environment = ''production'', rate_limit_requests = 1, rate_limit_window = 3600,
                API_KEYS = ''''\<rparr>;
       request = \<lparr>client_host = Some ''10.0.0.1'', http_method = ''GET'', url_path = ''/health'',
                   x_api_key = None, bearer = None\<rparr>;
       router = (\<lambda>req st. (Inr (JSONResponse 200 (JObj [(''status'', JStr ''healthy'')])), st));
       (response1, st1) = app cfg router request
                            \<lparr>rate_limiter = Map.empty, server_log = [], clock = 0\<rparr>;
       (response2, st2) = app cfg router request (st1\<lparr>clock := 1000000\<rparr>)
   in status_code response1 = 200 \<and>
      headers response1 ''X-Frame-Options'' = Some ''DENY'' \<and>
      status_code response2 = 429 \<and>
      content response2 = JObj [(''error'', JStr ''Rate limit exceeded''),
                                (''detail'', JStr ''Too many requests'')] \<and>
      headers response2 = Map.empty"
  by (simp add: app_unfold server_error_middleware_def log_requests_def rate_limit_middleware_def
      add_security_headers_def with_security_headers_def get_security_headers_def is_allowed_def
      timedelta_seconds_def JSONResponse_def Let_def)

text \<open>
  C3 (as amended). When the processor raises an exception on the validated query, the
  endpoint raises an \<open>HTTPException\<close> and the response has status 500 and the body
  \<open>{"detail": "Error processing marketing query: " + str(e)}\<close>: it carries the text of
  the processor's exception. The same message is written to the log as an error, after
  the record of the query.
\<close>

theorem processor_error_response:
  assumes "run_crew_query query = Inl e"
  shows "let (r, lg') = query_crew_endpoint run_crew_query query lg
         in endpoint_response r =
              \<lparr>status_code = 500,
                 content = JObj [(''detail'', JStr (''Error processing marketing query: '' @ e))],
                 headers = Map.empty\<rparr> \<and>
            lg' = lg @ [ProcessingQuery query, LogError (''Error processing marketing query: '' @ e)]"
  using assms
  by (simp add: query_crew_endpoint_def endpoint_response_def http_exception_handler_def
      JSONResponse_def Let_def)

theorem processor_error_response_witness:
  "(\<lambda>q. Inl ''CrewAI processing error'' :: string + json_dict) ''What are our top campaigns?''
      = Inl ''CrewAI processing error'' \<and>
   endpoint_response (fst (query_crew_endpoint (\<lambda>q. Inl ''CrewAI processing error'')
      ''What are our top campaigns?'' [])) =
     \<lparr>status_code = 500,
        content = JObj [(''detail'', JStr ''Error processing marketing query: CrewAI processing error'')],
        headers = Map.empty\<rparr>"
  using processor_error_response [where run_crew_query = "\<lambda>q. Inl ''CrewAI processing error''"
      and query = "''What are our top campaigns?''" and e = "''CrewAI processing error''" and lg = "[]"]
  by (simp add: Let_def split: prod.splits)

text \<open>
  The claim as written has a generic body without the processor's detail. With the
  processor raising \<open>CrewAI processing error\<close> (the case of the repository's test), the
  body's detail contains that text, and the body is not the generic one of
  \<open>global_exception_handler\<close>.
\<close>

theorem processor_error_leaks_counterexample:
  "content (endpoint_response (fst (query_crew_endpoint (\<lambda>q. Inl ''CrewAI processing error'')
      ''What are our top campaigns?'' []))) =
     JObj [(''detail'', JStr ''Error processing marketing query: CrewAI processing error'')] \<and>
   str_in ''CrewAI processing error'' ''Error processing marketing query: CrewAI processing error'' \<and>
   content (endpoint_response (fst (query_crew_endpoint (\<lambda>q. Inl ''CrewAI processing error'')
      ''What are our top campaigns?'' []))) \<noteq>
     JObj [(''error'', JStr ''Internal server error''),
           (''detail'', JStr ''An unexpected error occurred'')]"
  by (simp add: query_crew_endpoint_def endpoint_response_def http_exception_handler_def
      JSONResponse_def Let_def)

end
